theory Spec2Isabelle
  imports Main "HOL-Library.Word"
begin

section \<open>JavaScript values\<close>

text \<open>
  The rate limiter of \<^verbatim>\<open>src/security/rateLimiter.ts\<close> works on strings and numbers.
  A JavaScript string is a sequence of UTF-16 code units, and \<^verbatim>\<open>charCodeAt\<close> reads one
  unit, so a string is a list of 16-bit words.  Every number the limiter handles is an
  integer (millisecond timestamps, counters, screen sizes, a 32-bit hash), and the
  configuration is taken to hold integers too; a double holds every integer below
  \<open>2 ^ 53\<close> exactly, so numbers are modelled as \<open>int\<close> and the places where the
  language wraps to 32 bits are written out.
\<close>

type_synonym jsstring = "16 word list"

definition ascii :: "string \<Rightarrow> jsstring" where
  "ascii cs = map (\<lambda>c. of_nat (of_char c)) cs"

text \<open>\<^verbatim>\<open>ToInt32\<close>: the value modulo \<open>2 ^ 32\<close>, read as two's complement.\<close>

definition toInt32 :: "int \<Rightarrow> int" where
  "toInt32 x = (x + 2 ^ 31) mod 2 ^ 32 - 2 ^ 31"

text \<open>
  \<^verbatim>\<open>Number.prototype.toString(radix)\<close> on an integer: the digits, most significant first,
  drawn from \<^verbatim>\<open>0-9a-z\<close>, after a minus sign for a negative number.
\<close>

fun digitsOf :: "nat \<Rightarrow> nat \<Rightarrow> nat list" where
  "digitsOf radix n =
     (if radix < 2 \<or> n < radix then [n] else digitsOf radix (n div radix) @ [n mod radix])"

definition digitChar :: "nat \<Rightarrow> char" where
  "digitChar d = ''0123456789abcdefghijklmnopqrstuvwxyz'' ! d"

definition numberToString :: "nat \<Rightarrow> int \<Rightarrow> jsstring" where
  "numberToString radix x =
     ascii ((if x < 0 then ''-'' else []) @ map digitChar (digitsOf radix (nat \<bar>x\<bar>)))"

text \<open>\<^verbatim>\<open>Array.prototype.join\<close> on an array of strings.\<close>

fun join :: "jsstring \<Rightarrow> jsstring list \<Rightarrow> jsstring" where
  "join sep [] = []"
| "join sep [x] = x"
| "join sep (x # y # ys) = x @ sep @ join sep (y # ys)"

section \<open>The fingerprint\<close>

text \<open>
  \<^verbatim>\<open>generateFingerprint\<close> reads the browser: the user agent, the language, the screen
  size, the timezone offset, and a canvas on which it draws a text and which it then
  serialises.  \<open>context2d\<close> says whether \<^verbatim>\<open>canvas.getContext('2d')\<close> returns a context
  (it returns \<^verbatim>\<open>null\<close> otherwise), \<open>dataURL\<close> is what \<^verbatim>\<open>canvas.toDataURL()\<close> returns
  after the drawing.
\<close>

record environment =
  userAgent :: jsstring
  language :: jsstring
  screenWidth :: int
  screenHeight :: int
  timezoneOffset :: int
  context2d :: bool
  dataURL :: jsstring

text \<open>
  The exceptions.  \<open>TypeError\<close> is what the runtime throws at \<^verbatim>\<open>ctx!.textBaseline = 'top'\<close>
  when \<^verbatim>\<open>ctx\<close> is \<^verbatim>\<open>null\<close>: the \<^verbatim>\<open>!\<close> is a compile-time assertion and is erased from
  the emitted JavaScript.  \<open>CapabilityUnavailable\<close> is the condition the specification
  names; no statement of the source throws it.
\<close>

datatype error = TypeError | CapabilityUnavailable

text \<open>The array that is joined with \<^verbatim>\<open>'|'\<close>.\<close>

definition fingerprintString :: "environment \<Rightarrow> jsstring" where
  "fingerprintString env =
     join (ascii ''|'')
       [userAgent env,
        language env,
        numberToString 10 (screenWidth env) @ ascii ''x'' @ numberToString 10 (screenHeight env),
        numberToString 10 (timezoneOffset env),
        dataURL env]"

text \<open>
  One turn of the loop:
  \<^verbatim>\<open>hash = ((hash << 5) - hash) + char; hash = hash & hash;\<close>
  The shift converts its operand to 32 bits and wraps its result to 32 bits; the
  subtraction and the addition are exact; the conjunction converts to 32 bits again.
\<close>

definition shiftLeft :: "int \<Rightarrow> nat \<Rightarrow> int" where
  "shiftLeft x n = toInt32 (toInt32 x * 2 ^ n)"

definition bitAnd :: "int \<Rightarrow> int \<Rightarrow> int" where
  "bitAnd x y = and (toInt32 x) (toInt32 y)"

definition hashStep :: "int \<Rightarrow> 16 word \<Rightarrow> int" where
  "hashStep hash c = (let h = (shiftLeft hash 5 - hash) + uint c in bitAnd h h)"

definition hashString :: "jsstring \<Rightarrow> int" where
  "hashString fingerprint = foldl hashStep 0 fingerprint"

definition generateFingerprint :: "environment \<Rightarrow> error + jsstring" where
  "generateFingerprint env =
     (if \<not> context2d env then Inl TypeError
      else Inr (numberToString 36 \<bar>hashString (fingerprintString env)\<bar>))"

definition getClientIP :: "environment \<Rightarrow> error + jsstring" where
  "getClientIP env = generateFingerprint env"

section \<open>The rate limiter\<close>

record RateLimitConfig =
  maxRequests :: int
  windowMs :: int
  blockDurationMs :: int
  enableLogging :: bool

record ClientInfo =
  ip :: jsstring
  requests :: "int list"
  blocked :: bool
  blockUntil :: int

text \<open>
  The object's fields, and the callbacks that \<^verbatim>\<open>setTimeout\<close> has registered and that
  have not run yet: \<open>(d, k)\<close> stands for \<^verbatim>\<open>() => { this.blockedIPs.delete(k) }\<close>, due at
  time \<open>d\<close>.  The \<^verbatim>\<open>console.warn\<close> of \<^verbatim>\<open>blockClient\<close> writes to the console only and is
  left out.
\<close>

record QuadKernRateLimiter =
  config :: RateLimitConfig
  clients :: "jsstring \<rightharpoonup> ClientInfo"
  blockedIPs :: "jsstring set"
  suspiciousIPs :: "jsstring set"
  timeouts :: "(int \<times> jsstring) list"

text \<open>A \<^verbatim>\<open>Partial<RateLimitConfig>\<close>: each field present or absent.\<close>

record PartialConfig =
  newMaxRequests :: "int option"
  newWindowMs :: "int option"
  newBlockDurationMs :: "int option"
  newEnableLogging :: "bool option"

text \<open>The object spread \<^verbatim>\<open>{ ...base, ...newConfig }\<close>.\<close>

definition spread :: "RateLimitConfig \<Rightarrow> PartialConfig \<Rightarrow> RateLimitConfig" where
  "spread base p =
     \<lparr>maxRequests = (case newMaxRequests p of None \<Rightarrow> maxRequests base | Some v \<Rightarrow> v),
      windowMs = (case newWindowMs p of None \<Rightarrow> windowMs base | Some v \<Rightarrow> v),
      blockDurationMs = (case newBlockDurationMs p of None \<Rightarrow> blockDurationMs base | Some v \<Rightarrow> v),
      enableLogging = (case newEnableLogging p of None \<Rightarrow> enableLogging base | Some v \<Rightarrow> v)\<rparr>"

definition defaultConfig :: RateLimitConfig where
  "defaultConfig =
     \<lparr>maxRequests = 100, windowMs = 60000, blockDurationMs = 300000, enableLogging = False\<rparr>"

text \<open>
  The constructor.  Its \<^verbatim>\<open>startCleanup()\<close> registers the sweep \<open>cleanup\<close> below with
  \<^verbatim>\<open>setInterval\<close>, every 300000 ms.
\<close>

definition newRateLimiter :: "PartialConfig \<Rightarrow> QuadKernRateLimiter" where
  "newRateLimiter p =
     \<lparr>config = spread defaultConfig p, clients = Map.empty, blockedIPs = {},
      suspiciousIPs = {}, timeouts = []\<rparr>"

text \<open>
  \<^verbatim>\<open>setTimeout\<close> takes its delay as a signed 32-bit integer (the argument is a WebIDL
  \<^verbatim>\<open>long\<close>, so the number is wrapped as by \<^verbatim>\<open>ToInt32\<close>) and treats a negative delay
  as 0.  A delay of \<open>2 ^ 31\<close> ms or more therefore does not wait that long: \<open>2 ^ 31\<close>
  itself wraps to a negative number and the callback is due at once.
\<close>

definition timerDelay :: "int \<Rightarrow> int" where
  "timerDelay delay = max 0 (toInt32 delay)"

text \<open>
  \<^verbatim>\<open>blockClient\<close>: the timer is set while the clock reads \<open>now\<close> with the delay
  \<open>blockDurationMs\<close>, so its callback is due at \<open>now + timerDelay blockDurationMs\<close>.
\<close>

definition blockClient :: "jsstring \<Rightarrow> int \<Rightarrow> QuadKernRateLimiter \<Rightarrow> QuadKernRateLimiter" where
  "blockClient k now s =
     s\<lparr>blockedIPs := insert k (blockedIPs s),
       suspiciousIPs := insert k (suspiciousIPs s),
       timeouts := timeouts s @ [(now + timerDelay (blockDurationMs (config s)), k)]\<rparr>"

text \<open>
  \<^verbatim>\<open>checkRateLimit\<close>.  \<open>now\<close> is what \<^verbatim>\<open>Date.now()\<close> returns.  The client object is
  shared with the map, so the assignment to \<^verbatim>\<open>client.requests\<close> and the \<^verbatim>\<open>push\<close> are
  updates of the map's entry.
\<close>

definition checkRateLimit ::
  "environment \<Rightarrow> int \<Rightarrow> QuadKernRateLimiter \<Rightarrow> (error + bool) \<times> QuadKernRateLimiter" where
  "checkRateLimit env now s =
     (case getClientIP env of
        Inl e \<Rightarrow> (Inl e, s)
      | Inr clientIP \<Rightarrow>
          if clientIP \<in> blockedIPs s then (Inr False, s)
          else
            let client =
                  (case clients s clientIP of
                     None \<Rightarrow> \<lparr>ip = clientIP, requests = [], blocked = False, blockUntil = 0\<rparr>
                   | Some c \<Rightarrow> c);
                client = client\<lparr>requests :=
                  filter (\<lambda>timestamp. now - timestamp < windowMs (config s)) (requests client)\<rparr>;
                s = s\<lparr>clients := (clients s)(clientIP \<mapsto> client)\<rparr>
            in if int (length (requests client)) \<ge> maxRequests (config s)
               then (Inr False, blockClient clientIP now s)
               else (Inr True,
                     s\<lparr>clients := (clients s)(clientIP \<mapsto>
                         client\<lparr>requests := requests client @ [now]\<rparr>)\<rparr>))"

definition isBlocked ::
  "environment \<Rightarrow> QuadKernRateLimiter \<Rightarrow> (error + bool) \<times> QuadKernRateLimiter" where
  "isBlocked env s =
     (case getClientIP env of
        Inl e \<Rightarrow> (Inl e, s)
      | Inr clientIP \<Rightarrow> (Inr (clientIP \<in> blockedIPs s), s))"

definition getRemainingRequests ::
  "environment \<Rightarrow> int \<Rightarrow> QuadKernRateLimiter \<Rightarrow> (error + int) \<times> QuadKernRateLimiter" where
  "getRemainingRequests env now s =
     (case getClientIP env of
        Inl e \<Rightarrow> (Inl e, s)
      | Inr clientIP \<Rightarrow>
          (case clients s clientIP of
             None \<Rightarrow> (Inr (maxRequests (config s)), s)
           | Some client \<Rightarrow>
               let recentRequests =
                     filter (\<lambda>timestamp. now - timestamp < windowMs (config s)) (requests client)
               in (Inr (max 0 (maxRequests (config s) - int (length recentRequests))), s)))"

text \<open>\<^verbatim>\<open>Math.min(...xs)\<close> on a list that is not empty.\<close>

definition mathMin :: "int list \<Rightarrow> int" where
  "mathMin xs = foldl min (hd xs) (tl xs)"

definition getTimeUntilReset ::
  "environment \<Rightarrow> int \<Rightarrow> QuadKernRateLimiter \<Rightarrow> (error + int) \<times> QuadKernRateLimiter" where
  "getTimeUntilReset env now s =
     (case getClientIP env of
        Inl e \<Rightarrow> (Inl e, s)
      | Inr clientIP \<Rightarrow>
          (case clients s clientIP of
             None \<Rightarrow> (Inr 0, s)
           | Some client \<Rightarrow>
               if length (requests client) = 0 then (Inr 0, s)
               else
                 let oldestRequest = mathMin (requests client)
                 in (Inr (max 0 (windowMs (config s) - (now - oldestRequest))), s)))"

text \<open>
  The body of the interval callback of \<^verbatim>\<open>startCleanup\<close>, run with the clock at \<open>now\<close>.
  Each entry is filtered on its own and deleted when nothing is left.
\<close>

definition cleanup :: "int \<Rightarrow> QuadKernRateLimiter \<Rightarrow> QuadKernRateLimiter" where
  "cleanup now s =
     (let cutoff = now - windowMs (config s) * 2
      in s\<lparr>clients := (\<lambda>k.
           case clients s k of
             None \<Rightarrow> None
           | Some client \<Rightarrow>
               let client = client\<lparr>requests := filter (\<lambda>timestamp. timestamp > cutoff) (requests client)\<rparr>
               in if length (requests client) = 0 then None else Some client)\<rparr>)"

definition updateConfig :: "PartialConfig \<Rightarrow> QuadKernRateLimiter \<Rightarrow> QuadKernRateLimiter" where
  "updateConfig newConfig s = s\<lparr>config := spread (config s) newConfig\<rparr>"

record Stats =
  totalClients :: nat
  blockedCount :: nat
  suspiciousCount :: nat
  statsConfig :: RateLimitConfig

definition getStats :: "QuadKernRateLimiter \<Rightarrow> Stats \<times> QuadKernRateLimiter" where
  "getStats s =
     (\<lparr>totalClients = card (dom (clients s)),
       blockedCount = card (blockedIPs s),
       suspiciousCount = card (suspiciousIPs s),
       statsConfig = config s\<rparr>, s)"

definition clearBlockedIPs :: "QuadKernRateLimiter \<Rightarrow> QuadKernRateLimiter" where
  "clearBlockedIPs s = s\<lparr>blockedIPs := {}, suspiciousIPs := {}\<rparr>"

section \<open>The passing of time\<close>

text \<open>
  The page runs on one thread: a timer callback runs between two calls, never inside
  one.  Timers are taken to run on time.  \<open>runTimeouts now\<close> runs the callbacks
  that are due when the clock reads \<open>now\<close> (each deletes its key from \<open>blockedIPs\<close>)
  and drops them from the pending list.  A call made at time \<open>now\<close> therefore acts on \<open>runTimeouts now s\<close>.
  Whether a callback due at exactly \<open>now\<close> has run is a matter of scheduling; the
  statements below speak of times strictly before or strictly after a deadline.
\<close>

definition runTimeouts :: "int \<Rightarrow> QuadKernRateLimiter \<Rightarrow> QuadKernRateLimiter" where
  "runTimeouts now s =
     s\<lparr>blockedIPs := blockedIPs s - set (map snd (filter (\<lambda>p. fst p \<le> now) (timeouts s))),
       timeouts := filter (\<lambda>p. \<not> fst p \<le> now) (timeouts s)\<rparr>"

text \<open>A sequence of \<^verbatim>\<open>checkRateLimit()\<close> calls from one page, at the given clock readings.\<close>

fun checkRateLimitSeq ::
  "environment \<Rightarrow> int list \<Rightarrow> QuadKernRateLimiter \<Rightarrow> (error + bool) list \<times> QuadKernRateLimiter" where
  "checkRateLimitSeq env [] s = ([], s)"
| "checkRateLimitSeq env (t # ts) s =
     (case checkRateLimit env t (runTimeouts t s) of
        (r, s') \<Rightarrow> (case checkRateLimitSeq env ts s' of (rs, s'') \<Rightarrow> (r # rs, s'')))"

text \<open>
  Everything a page can do with the limiter, and the sweep, each at a clock reading.
  \<open>perform\<close> keeps the state a call leaves behind; \<open>run\<close> lets the due timers run
  before each call.
\<close>

datatype call =
    CheckRateLimit environment
  | IsBlocked environment
  | GetRemainingRequests environment
  | GetTimeUntilReset environment
  | Cleanup
  | UpdateConfig PartialConfig
  | GetStats
  | ClearBlockedIPs

fun perform :: "call \<Rightarrow> int \<Rightarrow> QuadKernRateLimiter \<Rightarrow> QuadKernRateLimiter" where
  "perform (CheckRateLimit env) now s = snd (checkRateLimit env now s)"
| "perform (IsBlocked env) now s = snd (isBlocked env s)"
| "perform (GetRemainingRequests env) now s = snd (getRemainingRequests env now s)"
| "perform (GetTimeUntilReset env) now s = snd (getTimeUntilReset env now s)"
| "perform Cleanup now s = cleanup now s"
| "perform (UpdateConfig newConfig) now s = updateConfig newConfig s"
| "perform GetStats now s = snd (getStats s)"
| "perform ClearBlockedIPs now s = clearBlockedIPs s"

fun run :: "(int \<times> call) list \<Rightarrow> QuadKernRateLimiter \<Rightarrow> QuadKernRateLimiter" where
  "run [] s = s"
| "run ((t, c) # cs) s = run cs (perform c t (runTimeouts t s))"



section \<open>Notions the statements use\<close>

text \<open>The timestamps stored for a key: none when the key has no record.\<close>

definition requestsOf :: "QuadKernRateLimiter \<Rightarrow> jsstring \<Rightarrow> int list" where
  "requestsOf s k = (case clients s k of None \<Rightarrow> [] | Some client \<Rightarrow> requests client)"

text \<open>The timestamps of a key that are inside the window at time \<open>now\<close>.\<close>

definition recent :: "QuadKernRateLimiter \<Rightarrow> jsstring \<Rightarrow> int \<Rightarrow> int list" where
  "recent s k now = filter (\<lambda>timestamp. now - timestamp < windowMs (config s)) (requestsOf s k)"

text \<open>
  The recurrence as the specification words it, \<^verbatim>\<open>hash = hash*31 - hash + charCode\<close>
  wrapped to 32 bits, and the key it would give.
\<close>

definition specHashStep :: "int \<Rightarrow> 16 word \<Rightarrow> int" where
  "specHashStep hash c = toInt32 (hash * 31 - hash + uint c)"

definition specFingerprint :: "environment \<Rightarrow> jsstring" where
  "specFingerprint env = numberToString 36 \<bar>foldl specHashStep 0 (fingerprintString env)\<bar>"

text \<open>The recurrence \<^verbatim>\<open>hash = hash*32 - hash + charCode\<close> wrapped to 32 bits.\<close>

definition wrappedStep :: "int \<Rightarrow> 16 word \<Rightarrow> int" where
  "wrappedStep hash c = toInt32 (hash * 32 - hash + uint c)"

text \<open>The number a list of digits stands for, most significant digit first.\<close>

definition fromDigits :: "nat \<Rightarrow> nat list \<Rightarrow> nat" where
  "fromDigits radix ds = foldl (\<lambda>a d. a * radix + d) 0 ds"

section \<open>A concrete page\<close>

definition env0 :: environment where
  "env0 =
     \<lparr>userAgent = ascii ''Mozilla/5.0'', language = ascii ''en-US'', screenWidth = 1920,
      screenHeight = 1080, timezoneOffset = -60, context2d = True,
      dataURL = ascii ''data:image/png;base64,iVBORw0KGgo=''\<rparr>"

definition key0 :: jsstring where
  "key0 = ascii ''kxorn9''"

text \<open>The same page with no 2D context.\<close>

definition envNoCanvas :: environment where
  "envNoCanvas = env0\<lparr>context2d := False\<rparr>"

text \<open>\<^verbatim>\<open>{maxRequests: 3, windowMs: 1000, blockDurationMs: 5000}\<close>\<close>

definition scenarioConfig :: PartialConfig where
  "scenarioConfig =
     \<lparr>newMaxRequests = Some 3, newWindowMs = Some 1000, newBlockDurationMs = Some 5000,
      newEnableLogging = None\<rparr>"

text \<open>\<^verbatim>\<open>{maxRequests: 1, windowMs: 10000, blockDurationMs: 100}\<close>: a block shorter than the window.\<close>

definition shortBlockConfig :: PartialConfig where
  "shortBlockConfig =
     \<lparr>newMaxRequests = Some 1, newWindowMs = Some 10000, newBlockDurationMs = Some 100,
      newEnableLogging = None\<rparr>"

text \<open>
  \<^verbatim>\<open>{maxRequests: 1, windowMs: 1000, blockDurationMs: 2147483648}\<close>: a block longer than
  \<^verbatim>\<open>setTimeout\<close> can wait.
\<close>

definition longBlockConfig :: PartialConfig where
  "longBlockConfig =
     \<lparr>newMaxRequests = Some 1, newWindowMs = Some 1000, newBlockDurationMs = Some (2 ^ 31),
      newEnableLogging = None\<rparr>"

section \<open>Evaluation\<close>

lemma fingerprintString_env0:
  "fingerprintString env0 =
     ascii ''Mozilla/5.0|en-US|1920x1080|-60|data:image/png;base64,iVBORw0KGgo=''"
  by (simp add: env0_def fingerprintString_def numberToString_def ascii_def digitChar_def)

lemma hashString_env0: "hashString (fingerprintString env0) = 1265906421"
  unfolding fingerprintString_env0
  by (simp add: hashString_def hashStep_def shiftLeft_def bitAnd_def toInt32_def ascii_def)

lemma getClientIP_env0: "getClientIP env0 = Inr key0"
  unfolding getClientIP_def generateFingerprint_def hashString_env0
  by (simp add: env0_def key0_def numberToString_def ascii_def digitChar_def)

lemmas limiter_defs =
  checkRateLimit_def runTimeouts_def blockClient_def newRateLimiter_def spread_def
  defaultConfig_def Let_def scenarioConfig_def shortBlockConfig_def longBlockConfig_def
  requestsOf_def recent_def timerDelay_def toInt32_def

text \<open>A delay in the range of \<^verbatim>\<open>setTimeout\<close> is waited for as it is.\<close>

lemma timerDelay_id:
  assumes "0 \<le> delay" and "delay < 2 ^ 31"
  shows "timerDelay delay = delay"
proof -
  from assms have "(delay + 2 ^ 31) mod 2 ^ 32 = delay + 2 ^ 31"
    by (intro mod_pos_pos_trivial) simp_all
  with assms(1) show ?thesis
    by (simp add: timerDelay_def toInt32_def)
qed

section \<open>A blocked key is rejected and nothing is touched\<close>

text \<open>
  C5.  Whatever the state, when the page's key is in \<open>blockedIPs\<close>, \<open>checkRateLimit\<close>
  returns \<^verbatim>\<open>false\<close> and leaves the whole state as it was: the key's timestamps are
  neither pruned nor extended, and no record is created for it.  The stored timestamps
  play no part.
\<close>

theorem blocked_key_rejected_untouched:
  assumes "getClientIP env = Inr k"
    and "k \<in> blockedIPs s"
  shows "checkRateLimit env now s = (Inr False, s)"
  using assms by (simp add: checkRateLimit_def)

theorem blocked_key_rejected_untouched_witness:
  "checkRateLimit env0 4999
     (snd (checkRateLimitSeq env0 [0, 100, 200, 300] (newRateLimiter scenarioConfig)))
   = (Inr False, snd (checkRateLimitSeq env0 [0, 100, 200, 300] (newRateLimiter scenarioConfig)))
   \<and> requestsOf (snd (checkRateLimitSeq env0 [0, 100, 200, 300] (newRateLimiter scenarioConfig))) key0
     = [0, 100, 200]"
proof -
  have blocked:
    "key0 \<in> blockedIPs (snd (checkRateLimitSeq env0 [0, 100, 200, 300] (newRateLimiter scenarioConfig)))"
    by (simp add: limiter_defs getClientIP_env0 del: set_filter set_map)
  have stored:
    "requestsOf (snd (checkRateLimitSeq env0 [0, 100, 200, 300] (newRateLimiter scenarioConfig))) key0
       = [0, 100, 200]"
    by (simp add: limiter_defs getClientIP_env0 del: set_filter set_map)
  from blocked_key_rejected_untouched [OF getClientIP_env0 blocked, of 4999] stored
  show ?thesis by simp
qed

section \<open>The reads change nothing\<close>

text \<open>
  C10.  \<open>getRemainingRequests\<close> and \<open>getTimeUntilReset\<close> return the state they were
  given: the client map with every stored timestamp list, the blocked set and the
  configuration are the same afterwards.  The filter of \<open>getRemainingRequests\<close> works on
  a copy.  Of the other operations, \<open>isBlocked\<close>, \<open>getStats\<close>, \<open>updateConfig\<close>,
  \<open>clearBlockedIPs\<close> and the timer callbacks leave the client map alone as well, so
  stored timestamps are pruned by \<open>checkRateLimit\<close> and by the sweep only.
\<close>

theorem reads_leave_state:
  "snd (getRemainingRequests env now s) = s
   \<and> snd (getTimeUntilReset env now s) = s
   \<and> clients (snd (isBlocked env s)) = clients s
   \<and> clients (snd (getStats s)) = clients s
   \<and> clients (updateConfig newConfig s) = clients s
   \<and> clients (clearBlockedIPs s) = clients s
   \<and> clients (runTimeouts now s) = clients s"
  by (simp add: getRemainingRequests_def getTimeUntilReset_def isBlocked_def getStats_def
      updateConfig_def clearBlockedIPs_def runTimeouts_def Let_def split: sum.split option.split)

theorem reads_leave_state_witness:
  "fst (getRemainingRequests env0 5000
      (snd (checkRateLimitSeq env0 [0, 100, 200] (newRateLimiter scenarioConfig)))) = Inr 3
   \<and> requestsOf (snd (getRemainingRequests env0 5000
      (snd (checkRateLimitSeq env0 [0, 100, 200] (newRateLimiter scenarioConfig))))) key0
     = [0, 100, 200]
   \<and> requestsOf (snd (getTimeUntilReset env0 5000
      (snd (checkRateLimitSeq env0 [0, 100, 200] (newRateLimiter scenarioConfig))))) key0
     = [0, 100, 200]
   \<and> requestsOf (snd (checkRateLimit env0 5000
      (snd (checkRateLimitSeq env0 [0, 100, 200] (newRateLimiter scenarioConfig))))) key0
     = [5000]"
proof -
  let ?s = "snd (checkRateLimitSeq env0 [0, 100, 200] (newRateLimiter scenarioConfig))"
  have stored: "requestsOf ?s key0 = [0, 100, 200]"
    by (simp add: limiter_defs getClientIP_env0 del: set_filter set_map)
  have left: "fst (getRemainingRequests env0 5000 ?s) = Inr 3"
    by (simp add: limiter_defs getRemainingRequests_def getClientIP_env0 del: set_filter set_map)
  have pruned: "requestsOf (snd (checkRateLimit env0 5000 ?s)) key0 = [5000]"
    by (simp add: limiter_defs getClientIP_env0 del: set_filter set_map)
  from reads_leave_state [of env0 5000 ?s] stored left pruned
  show ?thesis by simp
qed

section \<open>The suspicious keys decide nothing\<close>

lemma checkRateLimit_suspiciousIPs:
  "snd (checkRateLimit env now (s\<lparr>suspiciousIPs := X\<rparr>))
     = (snd (checkRateLimit env now s))
         \<lparr>suspiciousIPs := X \<union> (blockedIPs (snd (checkRateLimit env now s)) - blockedIPs s)\<rparr>"
proof (cases "getClientIP env")
  case (Inl e)
  then show ?thesis by (simp add: checkRateLimit_def)
next
  case (Inr k)
  show ?thesis
  proof (cases "k \<in> blockedIPs s")
    case True
    with Inr show ?thesis by (simp add: checkRateLimit_def)
  next
    case False
    then have "insert k (blockedIPs s) - blockedIPs s = {k}"
      by auto
    with Inr False show ?thesis
      by (simp add: checkRateLimit_def blockClient_def Let_def)
  qed
qed

lemma writers_suspiciousIPs:
  "blockClient k now (s\<lparr>suspiciousIPs := X\<rparr>) = (blockClient k now s)\<lparr>suspiciousIPs := insert k X\<rparr>
   \<and> cleanup now (s\<lparr>suspiciousIPs := X\<rparr>) = (cleanup now s)\<lparr>suspiciousIPs := X\<rparr>
   \<and> updateConfig newConfig (s\<lparr>suspiciousIPs := X\<rparr>) = (updateConfig newConfig s)\<lparr>suspiciousIPs := X\<rparr>
   \<and> runTimeouts now (s\<lparr>suspiciousIPs := X\<rparr>) = (runTimeouts now s)\<lparr>suspiciousIPs := X\<rparr>
   \<and> clearBlockedIPs (s\<lparr>suspiciousIPs := X\<rparr>) = clearBlockedIPs s
   \<and> fst (getStats (s\<lparr>suspiciousIPs := X\<rparr>)) = (fst (getStats s))\<lparr>suspiciousCount := card X\<rparr>
   \<and> suspiciousIPs (newRateLimiter p) = {}"
  by (simp add: blockClient_def cleanup_def updateConfig_def runTimeouts_def clearBlockedIPs_def
      getStats_def newRateLimiter_def Let_def)

lemma reads_return_state:
  "snd (isBlocked env s) = s
   \<and> snd (getRemainingRequests env now s) = s
   \<and> snd (getTimeUntilReset env now s) = s
   \<and> snd (getStats s) = s"
  by (simp add: isBlocked_def getRemainingRequests_def getTimeUntilReset_def getStats_def Let_def
      split: sum.split option.split)

text \<open>
  C9.  Two states that differ in \<open>suspiciousIPs\<close> only give the same result to
  \<open>checkRateLimit\<close>, \<open>isBlocked\<close>, \<open>getRemainingRequests\<close> and \<open>getTimeUntilReset\<close>,
  and the states they leave behind differ in \<open>suspiciousIPs\<close> only (they are equal once
  that field is emptied in both): the client map, the blocked set, the configuration and
  the pending timers get the same updates.  The set is written in two places:
  \<open>blockClient\<close> adds the key it blocks, so \<open>checkRateLimit\<close> adds exactly the key it
  newly blocks, and \<open>clearBlockedIPs\<close> empties it.  \<open>getStats\<close> reports its size.  The
  sweep, \<open>updateConfig\<close> and the timer callbacks leave it alone.

  No operation does anything else with the set.  \<open>isBlocked\<close>, \<open>getRemainingRequests\<close>,
  \<open>getTimeUntilReset\<close> and \<open>getStats\<close> return the state they were given, the set
  included.  Started with another set \<open>X\<close> in the field, \<open>checkRateLimit\<close> ends in the
  same state but for \<open>X\<close> with the newly blocked key added, \<open>blockClient\<close> in the same
  state with the key added to \<open>X\<close>, the sweep, \<open>updateConfig\<close> and the timer callbacks
  in the same state with \<open>X\<close> untouched, and \<open>clearBlockedIPs\<close> in the very same state;
  of what \<open>getStats\<close> reports, only the count of suspicious keys changes.  A new
  limiter starts with the set empty.
\<close>

theorem suspiciousIPs_never_read:
  "fst (checkRateLimit env now (s\<lparr>suspiciousIPs := X\<rparr>)) = fst (checkRateLimit env now s)
   \<and> (snd (checkRateLimit env now (s\<lparr>suspiciousIPs := X\<rparr>)))\<lparr>suspiciousIPs := {}\<rparr>
       = (snd (checkRateLimit env now s))\<lparr>suspiciousIPs := {}\<rparr>
   \<and> fst (isBlocked env (s\<lparr>suspiciousIPs := X\<rparr>)) = fst (isBlocked env s)
   \<and> (snd (isBlocked env (s\<lparr>suspiciousIPs := X\<rparr>)))\<lparr>suspiciousIPs := {}\<rparr>
       = (snd (isBlocked env s))\<lparr>suspiciousIPs := {}\<rparr>
   \<and> fst (getRemainingRequests env now (s\<lparr>suspiciousIPs := X\<rparr>))
       = fst (getRemainingRequests env now s)
   \<and> (snd (getRemainingRequests env now (s\<lparr>suspiciousIPs := X\<rparr>)))\<lparr>suspiciousIPs := {}\<rparr>
       = (snd (getRemainingRequests env now s))\<lparr>suspiciousIPs := {}\<rparr>
   \<and> fst (getTimeUntilReset env now (s\<lparr>suspiciousIPs := X\<rparr>))
       = fst (getTimeUntilReset env now s)
   \<and> (snd (getTimeUntilReset env now (s\<lparr>suspiciousIPs := X\<rparr>)))\<lparr>suspiciousIPs := {}\<rparr>
       = (snd (getTimeUntilReset env now s))\<lparr>suspiciousIPs := {}\<rparr>
   \<and> suspiciousIPs (blockClient k now s) = insert k (suspiciousIPs s)
   \<and> suspiciousIPs (snd (checkRateLimit env now s))
       = suspiciousIPs s \<union> (blockedIPs (snd (checkRateLimit env now s)) - blockedIPs s)
   \<and> suspiciousIPs (clearBlockedIPs s) = {}
   \<and> suspiciousCount (fst (getStats s)) = card (suspiciousIPs s)
   \<and> suspiciousIPs (cleanup now s) = suspiciousIPs s
   \<and> suspiciousIPs (updateConfig newConfig s) = suspiciousIPs s
   \<and> suspiciousIPs (runTimeouts now s) = suspiciousIPs s
   \<and> snd (isBlocked env s) = s
   \<and> snd (getRemainingRequests env now s) = s
   \<and> snd (getTimeUntilReset env now s) = s
   \<and> snd (getStats s) = s
   \<and> snd (checkRateLimit env now (s\<lparr>suspiciousIPs := X\<rparr>))
       = (snd (checkRateLimit env now s))
           \<lparr>suspiciousIPs := X \<union> (blockedIPs (snd (checkRateLimit env now s)) - blockedIPs s)\<rparr>
   \<and> blockClient k now (s\<lparr>suspiciousIPs := X\<rparr>)
       = (blockClient k now s)\<lparr>suspiciousIPs := insert k X\<rparr>
   \<and> cleanup now (s\<lparr>suspiciousIPs := X\<rparr>) = (cleanup now s)\<lparr>suspiciousIPs := X\<rparr>
   \<and> updateConfig newConfig (s\<lparr>suspiciousIPs := X\<rparr>)
       = (updateConfig newConfig s)\<lparr>suspiciousIPs := X\<rparr>
   \<and> runTimeouts now (s\<lparr>suspiciousIPs := X\<rparr>) = (runTimeouts now s)\<lparr>suspiciousIPs := X\<rparr>
   \<and> clearBlockedIPs (s\<lparr>suspiciousIPs := X\<rparr>) = clearBlockedIPs s
   \<and> fst (getStats (s\<lparr>suspiciousIPs := X\<rparr>)) = (fst (getStats s))\<lparr>suspiciousCount := card X\<rparr>
   \<and> suspiciousIPs (newRateLimiter p) = {}"
proof -
  have check: "fst (checkRateLimit env now (s\<lparr>suspiciousIPs := X\<rparr>)) = fst (checkRateLimit env now s)
     \<and> (snd (checkRateLimit env now (s\<lparr>suspiciousIPs := X\<rparr>)))\<lparr>suspiciousIPs := {}\<rparr>
         = (snd (checkRateLimit env now s))\<lparr>suspiciousIPs := {}\<rparr>"
    by (simp add: checkRateLimit_def blockClient_def Let_def split: sum.split)
  have reads: "fst (isBlocked env (s\<lparr>suspiciousIPs := X\<rparr>)) = fst (isBlocked env s)
     \<and> (snd (isBlocked env (s\<lparr>suspiciousIPs := X\<rparr>)))\<lparr>suspiciousIPs := {}\<rparr>
         = (snd (isBlocked env s))\<lparr>suspiciousIPs := {}\<rparr>
     \<and> fst (getRemainingRequests env now (s\<lparr>suspiciousIPs := X\<rparr>))
         = fst (getRemainingRequests env now s)
     \<and> (snd (getRemainingRequests env now (s\<lparr>suspiciousIPs := X\<rparr>)))\<lparr>suspiciousIPs := {}\<rparr>
         = (snd (getRemainingRequests env now s))\<lparr>suspiciousIPs := {}\<rparr>
     \<and> fst (getTimeUntilReset env now (s\<lparr>suspiciousIPs := X\<rparr>))
         = fst (getTimeUntilReset env now s)
     \<and> (snd (getTimeUntilReset env now (s\<lparr>suspiciousIPs := X\<rparr>)))\<lparr>suspiciousIPs := {}\<rparr>
         = (snd (getTimeUntilReset env now s))\<lparr>suspiciousIPs := {}\<rparr>"
    by (simp add: isBlocked_def getRemainingRequests_def getTimeUntilReset_def Let_def
        split: sum.split option.split)
  have added: "suspiciousIPs (snd (checkRateLimit env now s))
       = suspiciousIPs s \<union> (blockedIPs (snd (checkRateLimit env now s)) - blockedIPs s)"
    by (auto simp add: checkRateLimit_def blockClient_def Let_def split: sum.split)
  have writes: "suspiciousIPs (blockClient k now s) = insert k (suspiciousIPs s)
     \<and> suspiciousIPs (clearBlockedIPs s) = {}
     \<and> suspiciousCount (fst (getStats s)) = card (suspiciousIPs s)
     \<and> suspiciousIPs (cleanup now s) = suspiciousIPs s
     \<and> suspiciousIPs (updateConfig newConfig s) = suspiciousIPs s
     \<and> suspiciousIPs (runTimeouts now s) = suspiciousIPs s"
    by (simp add: blockClient_def clearBlockedIPs_def getStats_def cleanup_def updateConfig_def
        runTimeouts_def Let_def)
  note returned = reads_return_state [of env s now]
  note commuted = checkRateLimit_suspiciousIPs [of env now X s]
  note others = writers_suspiciousIPs [of k now X s newConfig p]
  from check reads added writes returned commuted others show ?thesis
    by - (elim conjE, intro conjI; assumption)
qed

theorem suspiciousIPs_never_read_witness:
  "fst (checkRateLimit env0 300
     ((snd (checkRateLimitSeq env0 [0, 100, 200] (newRateLimiter scenarioConfig)))
        \<lparr>suspiciousIPs := {key0}\<rparr>)) = Inr False
   \<and> fst (checkRateLimit env0 300
     (snd (checkRateLimitSeq env0 [0, 100, 200] (newRateLimiter scenarioConfig)))) = Inr False
   \<and> suspiciousIPs (snd (checkRateLimit env0 300
     (snd (checkRateLimitSeq env0 [0, 100, 200] (newRateLimiter scenarioConfig))))) = {key0}"
proof -
  let ?s = "snd (checkRateLimitSeq env0 [0, 100, 200] (newRateLimiter scenarioConfig))"
  have denied: "fst (checkRateLimit env0 300 ?s) = Inr False"
    by (simp add: limiter_defs getClientIP_env0 del: set_filter set_map)
  have before: "suspiciousIPs ?s = {} \<and> blockedIPs ?s = {}"
    by (simp add: limiter_defs getClientIP_env0 del: set_filter set_map)
  have after: "blockedIPs (snd (checkRateLimit env0 300 ?s)) = {key0}"
    by (simp add: limiter_defs getClientIP_env0 del: set_filter set_map)
  note all = suspiciousIPs_never_read [where env = env0 and now = 300 and s = ?s and X = "{key0}"]
  note same = all [THEN conjunct1]
  note added = all [THEN conjunct2, THEN conjunct2, THEN conjunct2, THEN conjunct2,
      THEN conjunct2, THEN conjunct2, THEN conjunct2, THEN conjunct2, THEN conjunct2,
      THEN conjunct1]
  from same denied
  have "fst (checkRateLimit env0 300 (?s\<lparr>suspiciousIPs := {key0}\<rparr>)) = Inr False"
    by (simp only:)
  moreover from added before after
  have "suspiciousIPs (snd (checkRateLimit env0 300 ?s)) = {key0}"
    by (simp only:) simp
  ultimately show ?thesis
    using denied by (intro conjI)
qed

section \<open>When a key becomes blocked\<close>

lemma checkRateLimit_open:
  assumes "getClientIP env = Inr k"
    and "k \<notin> blockedIPs s"
  shows "fst (checkRateLimit env now s)
           = Inr (int (length (recent s k now)) < maxRequests (config s))
     \<and> (k \<in> blockedIPs (snd (checkRateLimit env now s)))
           = (maxRequests (config s) \<le> int (length (recent s k now)))
     \<and> requestsOf (snd (checkRateLimit env now s)) k
           = (if int (length (recent s k now)) < maxRequests (config s)
              then recent s k now @ [now] else recent s k now)
     \<and> timeouts (snd (checkRateLimit env now s))
           = (if int (length (recent s k now)) < maxRequests (config s)
              then timeouts s
              else timeouts s @ [(now + timerDelay (blockDurationMs (config s)), k)])"
  using assms
  by (simp add: checkRateLimit_def blockClient_def recent_def requestsOf_def Let_def
      split: option.split)

lemma checkRateLimit_config: "config (snd (checkRateLimit env now s)) = config s"
  by (simp add: checkRateLimit_def blockClient_def Let_def split: sum.split)

text \<open>
  C3, as the code has it.  For a key that is not blocked, \<open>checkRateLimit\<close> counts the
  timestamps that are still inside the window, before the present call is recorded.  The
  call is admitted exactly when that count is below \<open>maxRequests\<close>, and then the
  present time is appended and the key stays unblocked; so with \<open>maxRequests - 1\<close>
  timestamps in the window the call is admitted and brings the count to \<open>maxRequests\<close>.
  The key is blocked, and \<^verbatim>\<open>false\<close> returned, exactly when the count has already
  reached \<open>maxRequests\<close>: then nothing is appended, and the unblocking timer is set
  with the delay \<open>blockDurationMs\<close>; it is due at \<open>now + blockDurationMs\<close> when
  \<open>0 \<le> blockDurationMs < 2 ^ 31\<close>, and at \<open>now + timerDelay blockDurationMs\<close> in
  general.
\<close>

theorem block_when_window_full:
  assumes "getClientIP env = Inr k"
    and "k \<notin> blockedIPs s"
  shows "fst (checkRateLimit env now s)
           = Inr (int (length (recent s k now)) < maxRequests (config s))
     \<and> (k \<in> blockedIPs (snd (checkRateLimit env now s)))
           = (maxRequests (config s) \<le> int (length (recent s k now)))
     \<and> requestsOf (snd (checkRateLimit env now s)) k
           = (if int (length (recent s k now)) < maxRequests (config s)
              then recent s k now @ [now] else recent s k now)
     \<and> timeouts (snd (checkRateLimit env now s))
           = (if int (length (recent s k now)) < maxRequests (config s)
              then timeouts s
              else timeouts s @ [(now + timerDelay (blockDurationMs (config s)), k)])
     \<and> (0 \<le> blockDurationMs (config s) \<and> blockDurationMs (config s) < 2 ^ 31
            \<and> maxRequests (config s) \<le> int (length (recent s k now))
          \<longrightarrow> timeouts (snd (checkRateLimit env now s))
                = timeouts s @ [(now + blockDurationMs (config s), k)])"
proof -
  note step = checkRateLimit_open [OF assms, of now]
  have "timeouts (snd (checkRateLimit env now s))
          = timeouts s @ [(now + blockDurationMs (config s), k)]"
    if "0 \<le> blockDurationMs (config s) \<and> blockDurationMs (config s) < 2 ^ 31
            \<and> maxRequests (config s) \<le> int (length (recent s k now))"
    using that step by (simp add: timerDelay_id)
  with step show ?thesis
    by (intro conjI impI) simp_all
qed

theorem block_when_window_full_witness:
  "fst (checkRateLimit env0 300
     (snd (checkRateLimitSeq env0 [0, 100, 200] (newRateLimiter scenarioConfig)))) = Inr False
   \<and> key0 \<in> blockedIPs (snd (checkRateLimit env0 300
     (snd (checkRateLimitSeq env0 [0, 100, 200] (newRateLimiter scenarioConfig)))))
   \<and> timeouts (snd (checkRateLimit env0 300
     (snd (checkRateLimitSeq env0 [0, 100, 200] (newRateLimiter scenarioConfig)))))
     = [(5300, key0)]"
proof -
  let ?s = "snd (checkRateLimitSeq env0 [0, 100, 200] (newRateLimiter scenarioConfig))"
  have free: "key0 \<notin> blockedIPs ?s"
    by (simp add: limiter_defs getClientIP_env0 del: set_filter set_map)
  have full: "recent ?s key0 300 = [0, 100, 200] \<and> maxRequests (config ?s) = 3
      \<and> blockDurationMs (config ?s) = 5000 \<and> timeouts ?s = []"
    by (simp add: limiter_defs getClientIP_env0 del: set_filter set_map)
  from block_when_window_full [OF getClientIP_env0 free, of 300] full
  show ?thesis by (simp add: timerDelay_def toInt32_def)
qed

text \<open>
  The claim as it was worded fails: with \<open>maxRequests = 3\<close> and two timestamps in the
  window, the third call is admitted and the key is not blocked.
\<close>

theorem block_at_one_below_limit_counterexample:
  "int (length (recent (snd (checkRateLimitSeq env0 [0, 100] (newRateLimiter scenarioConfig))) key0 200))
     = maxRequests (config (snd (checkRateLimitSeq env0 [0, 100] (newRateLimiter scenarioConfig)))) - 1
   \<and> key0 \<notin> blockedIPs (snd (checkRateLimitSeq env0 [0, 100] (newRateLimiter scenarioConfig)))
   \<and> fst (checkRateLimit env0 200
       (snd (checkRateLimitSeq env0 [0, 100] (newRateLimiter scenarioConfig)))) = Inr True
   \<and> key0 \<notin> blockedIPs (snd (checkRateLimit env0 200
       (snd (checkRateLimitSeq env0 [0, 100] (newRateLimiter scenarioConfig)))))"
  by (simp add: limiter_defs getClientIP_env0 del: set_filter set_map)

section \<open>No 2D context\<close>

text \<open>
  What the code does when \<^verbatim>\<open>getContext('2d')\<close> returns \<^verbatim>\<open>null\<close>: the first assignment
  through \<^verbatim>\<open>ctx\<close> throws a \<open>TypeError\<close>, out of \<open>generateFingerprint\<close> and out of
  every public operation that asks for the key, before any of them has touched the
  state.
\<close>

lemma no_context_throws_TypeError:
  assumes "\<not> context2d env"
  shows "generateFingerprint env = Inl TypeError
     \<and> checkRateLimit env now s = (Inl TypeError, s)
     \<and> isBlocked env s = (Inl TypeError, s)
     \<and> getRemainingRequests env now s = (Inl TypeError, s)
     \<and> getTimeUntilReset env now s = (Inl TypeError, s)"
  using assms
  by (simp add: generateFingerprint_def getClientIP_def checkRateLimit_def isBlocked_def
      getRemainingRequests_def getTimeUntilReset_def)

text \<open>
  C8.  The claim asks that \<open>generateFingerprint\<close> fail with a \<open>CapabilityUnavailable\<close>
  condition when the 2D context is unavailable.  The code does not: it asserts with
  \<^verbatim>\<open>ctx!\<close> that the context is there and has no check for the case where it is not.
  On the page \<open>envNoCanvas\<close>, which has no 2D context, \<open>generateFingerprint\<close> ends in
  the \<open>TypeError\<close> of the null dereference, which is not the condition the claim names,
  and so does \<open>checkRateLimit\<close>, on a state it has not touched.
\<close>

theorem no_context_failing_input:
  "\<not> context2d envNoCanvas
   \<and> generateFingerprint envNoCanvas = Inl TypeError
   \<and> generateFingerprint envNoCanvas \<noteq> Inl CapabilityUnavailable
   \<and> checkRateLimit envNoCanvas 0 (newRateLimiter scenarioConfig)
       = (Inl TypeError, newRateLimiter scenarioConfig)"
proof -
  have none: "\<not> context2d envNoCanvas"
    by (simp add: envNoCanvas_def env0_def)
  from none no_context_throws_TypeError [OF none, of 0 "newRateLimiter scenarioConfig"]
  show ?thesis by simp
qed

section \<open>The hash and its encoding\<close>

lemma toInt32_mod: "toInt32 x mod 2 ^ 32 = x mod 2 ^ 32"
  by (simp add: toInt32_def mod_simps)

lemma toInt32_cong: "x mod 2 ^ 32 = y mod 2 ^ 32 \<Longrightarrow> toInt32 x = toInt32 y"
  unfolding toInt32_def by (metis mod_add_left_eq)

lemma toInt32_range: "- (2 ^ 31) \<le> toInt32 x \<and> toInt32 x < 2 ^ 31"
proof -
  have "0 \<le> (x + 2 ^ 31) mod 2 ^ 32" and "(x + 2 ^ 31) mod 2 ^ 32 < (2 ^ 32 :: int)"
    by simp_all
  then show ?thesis by (simp add: toInt32_def)
qed

lemma toInt32_idem: "toInt32 (toInt32 x) = toInt32 x"
  by (rule toInt32_cong) (rule toInt32_mod)

lemma hashStep_wrapped: "hashStep h c = wrappedStep h c"
proof -
  have "(toInt32 (toInt32 h * 2 ^ 5) - h + uint c) mod 2 ^ 32 = (h * 32 - h + uint c) mod 2 ^ 32"
  proof -
    have "toInt32 (toInt32 h * 2 ^ 5) mod 2 ^ 32 = (toInt32 h * 2 ^ 5) mod 2 ^ 32"
      by (rule toInt32_mod)
    also have "\<dots> = (toInt32 h mod 2 ^ 32 * 2 ^ 5) mod 2 ^ 32"
      by (rule mod_mult_left_eq [symmetric])
    also have "\<dots> = (h mod 2 ^ 32 * 2 ^ 5) mod 2 ^ 32"
      by (simp only: toInt32_mod)
    also have "\<dots> = (h * 2 ^ 5) mod 2 ^ 32"
      by (rule mod_mult_left_eq)
    also have "\<dots> = (h * 32) mod 2 ^ 32"
      by simp
    finally have "toInt32 (toInt32 h * 2 ^ 5) mod 2 ^ 32 = (h * 32) mod 2 ^ 32" .
    then have "(toInt32 (toInt32 h * 2 ^ 5) - h) mod 2 ^ 32 = (h * 32 - h) mod 2 ^ 32"
      by (rule mod_diff_cong) (rule refl)
    then show ?thesis
      by (rule mod_add_cong) (rule refl)
  qed
  then have "toInt32 (toInt32 (toInt32 h * 2 ^ 5) - h + uint c) = toInt32 (h * 32 - h + uint c)"
    by (rule toInt32_cong)
  then show ?thesis
    by (simp add: hashStep_def wrappedStep_def shiftLeft_def bitAnd_def Let_def toInt32_idem)
qed

lemma hashString_wrapped: "hashString str = foldl wrappedStep 0 str"
proof -
  have "hashStep = wrappedStep"
    by (intro ext) (rule hashStep_wrapped)
  then show ?thesis by (simp add: hashString_def)
qed

lemma hashString_range: "- (2 ^ 31) \<le> hashString str \<and> hashString str < 2 ^ 31"
proof (cases str rule: rev_cases)
  case Nil
  then show ?thesis by (simp add: hashString_def)
next
  case (snoc cs c)
  then show ?thesis
    using toInt32_range by (simp add: hashString_wrapped wrappedStep_def)
qed

lemma fromDigits_snoc: "fromDigits radix (ds @ [d]) = fromDigits radix ds * radix + d"
  by (simp add: fromDigits_def)

lemma fromDigits_digitsOf: "fromDigits radix (digitsOf radix n) = n"
proof (induction radix n rule: digitsOf.induct)
  case (1 radix n)
  show ?case
  proof (cases "radix < 2 \<or> n < radix")
    case True
    then show ?thesis by (simp add: fromDigits_def)
  next
    case False
    with "1.IH" have "fromDigits radix (digitsOf radix (n div radix)) = n div radix"
      by simp
    with False show ?thesis
      by (subst digitsOf.simps) (simp add: fromDigits_snoc del: digitsOf.simps)
  qed
qed

lemma digitsOf_below: "2 \<le> radix \<Longrightarrow> list_all (\<lambda>d. d < radix) (digitsOf radix n)"
proof (induction radix n rule: digitsOf.induct)
  case (1 radix n)
  show ?case
  proof (cases "n < radix")
    case True
    then show ?thesis by simp
  next
    case False
    with "1.prems" have "list_all (\<lambda>d. d < radix) (digitsOf radix (n div radix))"
      by (intro "1.IH") auto
    with False "1.prems" show ?thesis
      by (subst digitsOf.simps) (simp del: digitsOf.simps)
  qed
qed

text \<open>
  C6, as the code has it.  \<open>generateFingerprint\<close> joins the user agent, the language,
  the screen size written \<^verbatim>\<open>WxH\<close>, the timezone offset and the canvas data URL with
  \<^verbatim>\<open>|\<close>.  Over any string, the loop is the fold, from 0 and one code unit at a time,
  of \<^verbatim>\<open>hash = hash*32 - hash + charCode\<close> wrapped to a signed 32-bit integer at each
  step, which is \<^verbatim>\<open>hash*31 + charCode\<close> wrapped; the shift by 5 is the multiplication
  by 32.  The result lies in the signed 32-bit range, and the key is the absolute value
  written in base 36 with the digits \<^verbatim>\<open>0-9a-z\<close>: the digits are below 36 and stand for
  that value.
\<close>

theorem fingerprint_hash_base36:
  assumes "context2d env"
  shows "fingerprintString env
           = userAgent env @ ascii ''|'' @ language env @ ascii ''|''
             @ numberToString 10 (screenWidth env) @ ascii ''x''
             @ numberToString 10 (screenHeight env) @ ascii ''|''
             @ numberToString 10 (timezoneOffset env) @ ascii ''|'' @ dataURL env
     \<and> hashString str = foldl wrappedStep 0 str
     \<and> wrappedStep h c = toInt32 (h * 31 + uint c)
     \<and> - (2 ^ 31) \<le> hashString str \<and> hashString str < 2 ^ 31
     \<and> generateFingerprint env
           = Inr (ascii (map digitChar
               (digitsOf 36 (nat \<bar>hashString (fingerprintString env)\<bar>))))
     \<and> fromDigits 36 (digitsOf 36 (nat \<bar>hashString (fingerprintString env)\<bar>))
           = nat \<bar>hashString (fingerprintString env)\<bar>
     \<and> list_all (\<lambda>d. d < 36) (digitsOf 36 (nat \<bar>hashString (fingerprintString env)\<bar>))"
proof -
  have joined: "fingerprintString env
           = userAgent env @ ascii ''|'' @ language env @ ascii ''|''
             @ numberToString 10 (screenWidth env) @ ascii ''x''
             @ numberToString 10 (screenHeight env) @ ascii ''|''
             @ numberToString 10 (timezoneOffset env) @ ascii ''|'' @ dataURL env"
    by (simp add: fingerprintString_def)
  have step: "wrappedStep h c = toInt32 (h * 31 + uint c)"
    by (simp add: wrappedStep_def algebra_simps)
  have key: "generateFingerprint env
           = Inr (ascii (map digitChar
               (digitsOf 36 (nat \<bar>hashString (fingerprintString env)\<bar>))))"
    using assms by (simp add: generateFingerprint_def numberToString_def del: digitsOf.simps)
  have digits: "list_all (\<lambda>d. d < 36) (digitsOf 36 (nat \<bar>hashString (fingerprintString env)\<bar>))"
    by (rule digitsOf_below) simp
  have fold: "hashString str = foldl wrappedStep 0 str"
    by (rule hashString_wrapped)
  have lower: "- (2 ^ 31) \<le> hashString str" and upper: "hashString str < 2 ^ 31"
    using hashString_range [of str] by simp_all
  have decoded: "fromDigits 36 (digitsOf 36 (nat \<bar>hashString (fingerprintString env)\<bar>))
           = nat \<bar>hashString (fingerprintString env)\<bar>"
    by (rule fromDigits_digitsOf)
  show ?thesis
    by (intro conjI) (rule joined fold step lower upper key decoded digits)+
qed

theorem fingerprint_hash_base36_witness:
  "generateFingerprint env0 = Inr (ascii ''kxorn9'')
   \<and> foldl wrappedStep 0 (fingerprintString env0) = 1265906421
   \<and> fromDigits 36 (digitsOf 36 1265906421) = 1265906421"
proof -
  have ctx: "context2d env0"
    by (simp add: env0_def)
  have digits: "map digitChar (digitsOf 36 1265906421) = ''kxorn9''"
    by (simp add: digitChar_def)
  note all = fingerprint_hash_base36 [OF ctx, of "fingerprintString env0"]
  note fold = all [THEN conjunct2, THEN conjunct1]
  note key = all [THEN conjunct2, THEN conjunct2, THEN conjunct2, THEN conjunct2,
      THEN conjunct2, THEN conjunct1]
  note decoded = all [THEN conjunct2, THEN conjunct2, THEN conjunct2, THEN conjunct2,
      THEN conjunct2, THEN conjunct2, THEN conjunct1]
  from fold have "foldl wrappedStep 0 (fingerprintString env0) = 1265906421"
    by (simp only: hashString_env0)
  moreover from key have "generateFingerprint env0 = Inr (ascii ''kxorn9'')"
    by (simp only: hashString_env0) (simp add: digits del: digitsOf.simps)
  moreover from decoded have "fromDigits 36 (digitsOf 36 1265906421) = 1265906421"
    by (simp only: hashString_env0) (simp del: digitsOf.simps)
  ultimately show ?thesis by blast
qed

text \<open>
  The recurrence as the claim words it, \<^verbatim>\<open>hash*31 - hash + charCode\<close>, multiplies by
  30: it gives another hash and another key.
\<close>

theorem fingerprint_spec_recurrence_counterexample:
  "generateFingerprint env0 = Inr (ascii ''kxorn9'')
   \<and> specFingerprint env0 = ascii ''ckq5g3''
   \<and> generateFingerprint env0 \<noteq> Inr (specFingerprint env0)
   \<and> hashString (ascii ''ab'') = 3105
   \<and> foldl specHashStep 0 (ascii ''ab'') = 3008"
proof -
  have code: "generateFingerprint env0 = Inr (ascii ''kxorn9'')"
    using getClientIP_env0 by (simp add: getClientIP_def key0_def)
  have "foldl specHashStep 0 (fingerprintString env0) = 760406547"
    unfolding fingerprintString_env0
    by (simp add: specHashStep_def toInt32_def ascii_def)
  then have spec: "specFingerprint env0 = ascii ''ckq5g3''"
    by (simp add: specFingerprint_def numberToString_def digitChar_def)
  have differ: "ascii ''kxorn9'' \<noteq> ascii ''ckq5g3''"
    by (simp add: ascii_def)
  have short: "hashString (ascii ''ab'') = 3105 \<and> foldl specHashStep 0 (ascii ''ab'') = 3008"
    by (simp add: hashString_def hashStep_def shiftLeft_def bitAnd_def specHashStep_def
        toInt32_def ascii_def)
  from code spec differ short show ?thesis by simp
qed

section \<open>The time until the window resets\<close>

lemma foldl_min_Min: "foldl min x xs = Min (set (x # xs))"
proof (induction xs arbitrary: x)
  case Nil
  then show ?case by simp
next
  case (Cons y ys)
  have "foldl min x (y # ys) = Min (set (min x y # ys))"
    using Cons.IH [of "min x y"] by simp
  also have "\<dots> = Min (insert (min x y) (set ys))"
    by simp
  also have "\<dots> = Min (insert x (insert y (set ys)))"
    by (cases "set ys = {}") (simp_all add: min.assoc)
  finally show ?case by simp
qed

lemma mathMin_Min: "xs \<noteq> [] \<Longrightarrow> mathMin xs = Min (set xs)"
  by (cases xs) (simp_all add: mathMin_def foldl_min_Min del: foldl_Cons)

lemma getTimeUntilReset_value:
  assumes "getClientIP env = Inr k"
  shows "fst (getTimeUntilReset env now s)
           = Inr (if requestsOf s k = [] then 0
                  else max 0 (windowMs (config s) - (now - Min (set (requestsOf s k)))))"
  using assms
  by (simp add: getTimeUntilReset_def requestsOf_def mathMin_Min Let_def split: option.split)

lemma reset_value_iff:
  assumes "0 < (W::int)"
  shows "(max 0 (W - (now - Min (set (rs @ [now])))) = W) = (\<forall>x\<in>set rs. now \<le> x)"
proof -
  let ?m = "Min (set (rs @ [now]))"
  have le: "?m \<le> now"
    by (intro Min_le) simp_all
  have "(?m = now) = (\<forall>x\<in>set rs. now \<le> x)"
    by (subst Min_eq_iff) auto
  moreover have "(max 0 (W - (now - ?m)) = W) = (?m = now)"
    using assms le by (auto simp add: max_def)
  ultimately show ?thesis by simp
qed

text \<open>
  C7, as the code has it.  For a page with key \<open>k\<close>, \<open>getTimeUntilReset\<close> is 0 when no
  timestamp is stored for \<open>k\<close>, and otherwise \<open>windowMs - (now - oldest)\<close> floored at 0,
  where \<open>oldest\<close> is the least stored timestamp.  On an unchanged state it does not
  increase as the clock advances.  After a \<open>checkRateLimit\<close> that admits its call, the
  value at that moment is \<open>windowMs - (now - oldest')\<close> floored at 0, where \<open>oldest'\<close>
  is the least of the timestamps that survived the pruning and of \<open>now\<close>; it is
  \<open>windowMs\<close> when no timestamp survived (and \<open>windowMs\<close> is not negative), and for
  a positive \<open>windowMs\<close> it is \<open>windowMs\<close> exactly when no surviving timestamp is
  earlier than \<open>now\<close>.
\<close>

theorem time_until_reset:
  assumes "getClientIP env = Inr k"
  shows "fst (getTimeUntilReset env now s)
           = Inr (if requestsOf s k = [] then 0
                  else max 0 (windowMs (config s) - (now - Min (set (requestsOf s k)))))
     \<and> (now \<le> now' \<longrightarrow>
          (\<exists>a b. fst (getTimeUntilReset env now s) = Inr a
             \<and> fst (getTimeUntilReset env now' s) = Inr b \<and> b \<le> a))
     \<and> (fst (checkRateLimit env now s) = Inr True \<longrightarrow>
          fst (getTimeUntilReset env now (snd (checkRateLimit env now s)))
            = Inr (max 0 (windowMs (config s) - (now - Min (set (recent s k now @ [now]))))))
     \<and> (fst (checkRateLimit env now s) = Inr True \<and> recent s k now = []
            \<and> 0 \<le> windowMs (config s) \<longrightarrow>
          fst (getTimeUntilReset env now (snd (checkRateLimit env now s)))
            = Inr (windowMs (config s)))
     \<and> (fst (checkRateLimit env now s) = Inr True \<and> 0 < windowMs (config s) \<longrightarrow>
          (fst (getTimeUntilReset env now (snd (checkRateLimit env now s)))
             = Inr (windowMs (config s)))
          = (\<forall>x\<in>set (recent s k now). now \<le> x))"
proof -
  note formula = getTimeUntilReset_value [OF assms]
  have mono: "now \<le> now' \<longrightarrow>
          (\<exists>a b. fst (getTimeUntilReset env now s) = Inr a
             \<and> fst (getTimeUntilReset env now' s) = Inr b \<and> b \<le> a)"
    by (auto simp add: formula max_def)
  have after: "fst (getTimeUntilReset env now (snd (checkRateLimit env now s)))
            = Inr (max 0 (windowMs (config s) - (now - Min (set (recent s k now @ [now])))))"
    if admitted: "fst (checkRateLimit env now s) = Inr True"
  proof -
    have free: "k \<notin> blockedIPs s"
      using admitted assms by (auto simp: checkRateLimit_def)
    from checkRateLimit_open [OF assms free, of now] admitted
    have stored: "requestsOf (snd (checkRateLimit env now s)) k = recent s k now @ [now]"
      by simp
    have same: "config (snd (checkRateLimit env now s)) = config s"
      by (rule checkRateLimit_config)
    show ?thesis
      by (simp only: formula stored same) simp
  qed
  have reset: "fst (getTimeUntilReset env now (snd (checkRateLimit env now s)))
            = Inr (windowMs (config s))"
    if "fst (checkRateLimit env now s) = Inr True \<and> recent s k now = []
            \<and> 0 \<le> windowMs (config s)"
    using that after by simp
  have after_admitted: "fst (checkRateLimit env now s) = Inr True \<longrightarrow>
          fst (getTimeUntilReset env now (snd (checkRateLimit env now s)))
            = Inr (max 0 (windowMs (config s) - (now - Min (set (recent s k now @ [now])))))"
    using after by (intro impI)
  have after_emptied: "fst (checkRateLimit env now s) = Inr True \<and> recent s k now = []
            \<and> 0 \<le> windowMs (config s) \<longrightarrow>
          fst (getTimeUntilReset env now (snd (checkRateLimit env now s)))
            = Inr (windowMs (config s))"
    using reset by (intro impI)
  have after_exact: "fst (checkRateLimit env now s) = Inr True \<and> 0 < windowMs (config s) \<longrightarrow>
          (fst (getTimeUntilReset env now (snd (checkRateLimit env now s)))
             = Inr (windowMs (config s)))
          = (\<forall>x\<in>set (recent s k now). now \<le> x)"
  proof
    assume h: "fst (checkRateLimit env now s) = Inr True \<and> 0 < windowMs (config s)"
    then have positive: "0 < windowMs (config s)"
      by simp
    from h after
    have "fst (getTimeUntilReset env now (snd (checkRateLimit env now s)))
            = Inr (max 0 (windowMs (config s) - (now - Min (set (recent s k now @ [now])))))"
      by simp
    then show "(fst (getTimeUntilReset env now (snd (checkRateLimit env now s)))
             = Inr (windowMs (config s)))
          = (\<forall>x\<in>set (recent s k now). now \<le> x)"
      using reset_value_iff [OF positive, of now "recent s k now"] by simp
  qed
  show ?thesis
    by (intro conjI) (rule formula mono after_admitted after_emptied after_exact)+
qed

theorem time_until_reset_witness:
  "fst (getTimeUntilReset env0 1200
      (snd (checkRateLimitSeq env0 [0, 500] (newRateLimiter scenarioConfig)))) = Inr 0
   \<and> fst (getTimeUntilReset env0 600
      (snd (checkRateLimitSeq env0 [0, 500] (newRateLimiter scenarioConfig)))) = Inr 400
   \<and> fst (getTimeUntilReset env0 1600
      (snd (checkRateLimit env0 1600
        (snd (checkRateLimitSeq env0 [0, 500] (newRateLimiter scenarioConfig)))))) = Inr 1000
   \<and> fst (getTimeUntilReset env0 500
      (snd (checkRateLimit env0 500
        (snd (checkRateLimitSeq env0 [500] (newRateLimiter scenarioConfig)))))) = Inr 1000"
proof -
  let ?s = "snd (checkRateLimitSeq env0 [0, 500] (newRateLimiter scenarioConfig))"
  let ?u = "snd (checkRateLimitSeq env0 [500] (newRateLimiter scenarioConfig))"
  have again: "fst (checkRateLimit env0 500 ?u) = Inr True \<and> recent ?u key0 500 = [500]
      \<and> windowMs (config ?u) = 1000"
    by (simp add: limiter_defs getClientIP_env0 del: set_filter set_map)
  note at500 = time_until_reset [OF getClientIP_env0, of 500 ?u 500,
      THEN conjunct2, THEN conjunct2, THEN conjunct2, THEN conjunct2]
  have stored: "requestsOf ?s key0 = [0, 500] \<and> windowMs (config ?s) = 1000"
    by (simp add: limiter_defs getClientIP_env0 del: set_filter set_map)
  have admitted: "fst (checkRateLimit env0 1600 ?s) = Inr True \<and> recent ?s key0 1600 = []"
    by (simp add: limiter_defs getClientIP_env0 del: set_filter set_map)
  note at1200 = time_until_reset [OF getClientIP_env0, of 1200 ?s 1200, THEN conjunct1]
  note at600 = time_until_reset [OF getClientIP_env0, of 600 ?s 600, THEN conjunct1]
  note at1600 = time_until_reset [OF getClientIP_env0, of 1600 ?s 1600,
      THEN conjunct2, THEN conjunct2, THEN conjunct2, THEN conjunct1]
  from at1200 stored have "fst (getTimeUntilReset env0 1200 ?s) = Inr 0"
    by simp
  moreover from at600 stored have "fst (getTimeUntilReset env0 600 ?s) = Inr 400"
    by simp
  moreover from at1600 stored admitted
  have "fst (getTimeUntilReset env0 1600 (snd (checkRateLimit env0 1600 ?s))) = Inr 1000"
    by simp
  moreover from at500 again
  have "fst (getTimeUntilReset env0 500 (snd (checkRateLimit env0 500 ?u))) = Inr 1000"
    by simp
  ultimately show ?thesis
    by (intro conjI)
qed

text \<open>
  The claim as it was worded fails: with a window of 1000 ms and the timestamps 0 and
  500 stored, the call at 1200 prunes the oldest timestamp and is admitted, and the
  value right after it is 300, not 1000, since 500 is now the oldest.
\<close>

theorem reset_after_pruning_counterexample:
  "requestsOf (snd (checkRateLimitSeq env0 [0, 500] (newRateLimiter scenarioConfig))) key0
     = [0, 500]
   \<and> fst (checkRateLimit env0 1200
       (snd (checkRateLimitSeq env0 [0, 500] (newRateLimiter scenarioConfig)))) = Inr True
   \<and> requestsOf (snd (checkRateLimit env0 1200
       (snd (checkRateLimitSeq env0 [0, 500] (newRateLimiter scenarioConfig))))) key0
     = [500, 1200]
   \<and> windowMs (config (snd (checkRateLimit env0 1200
       (snd (checkRateLimitSeq env0 [0, 500] (newRateLimiter scenarioConfig)))))) = 1000
   \<and> fst (getTimeUntilReset env0 1200 (snd (checkRateLimit env0 1200
       (snd (checkRateLimitSeq env0 [0, 500] (newRateLimiter scenarioConfig)))))) = Inr 300"
  by (simp add: limiter_defs getTimeUntilReset_def mathMin_def getClientIP_env0
      del: set_filter set_map)

section \<open>Sequences of calls\<close>

lemma runTimeouts_frame:
  "clients (runTimeouts t s) = clients s \<and> config (runTimeouts t s) = config s
   \<and> requestsOf (runTimeouts t s) k = requestsOf s k
   \<and> recent (runTimeouts t s) k now = recent s k now
   \<and> blockedIPs (runTimeouts t s) \<subseteq> blockedIPs s"
  by (auto simp add: runTimeouts_def requestsOf_def recent_def)

lemma checkRateLimitSeq_append:
  "checkRateLimitSeq env (xs @ ys) s =
     (fst (checkRateLimitSeq env xs s) @ fst (checkRateLimitSeq env ys (snd (checkRateLimitSeq env xs s))),
      snd (checkRateLimitSeq env ys (snd (checkRateLimitSeq env xs s))))"
  by (induction xs arbitrary: s) (simp_all split: prod.split)

lemma checkRateLimitSeq_Cons:
  "checkRateLimitSeq env (t # ts) s =
     (fst (checkRateLimit env t (runTimeouts t s))
        # fst (checkRateLimitSeq env ts (snd (checkRateLimit env t (runTimeouts t s)))),
      snd (checkRateLimitSeq env ts (snd (checkRateLimit env t (runTimeouts t s)))))"
  by (simp split: prod.split)

lemma recent_all:
  assumes "\<forall>b\<in>set (requestsOf s k). now - b < windowMs (config s)"
  shows "recent s k now = requestsOf s k"
  using assms by (simp add: recent_def)

lemma checkRateLimitSeq_admits:
  assumes "getClientIP env = Inr k"
    and "k \<notin> blockedIPs s"
    and "\<forall>a\<in>set ts. \<forall>b\<in>set (requestsOf s k) \<union> set ts. a - b < windowMs (config s)"
    and "int (length (requestsOf s k) + length ts) \<le> maxRequests (config s)"
  shows "fst (checkRateLimitSeq env ts s) = replicate (length ts) (Inr True)
     \<and> k \<notin> blockedIPs (snd (checkRateLimitSeq env ts s))
     \<and> config (snd (checkRateLimitSeq env ts s)) = config s
     \<and> requestsOf (snd (checkRateLimitSeq env ts s)) k = requestsOf s k @ ts"
  using assms(2-)
proof (induction ts arbitrary: s)
  case Nil
  then show ?case by simp
next
  case (Cons t ts)
  let ?s1 = "runTimeouts t s"
  let ?s2 = "snd (checkRateLimit env t ?s1)"
  have free1: "k \<notin> blockedIPs ?s1"
    using Cons.prems(1) runTimeouts_frame [of t s k t] by blast
  have stored1: "requestsOf ?s1 k = requestsOf s k" and config1: "config ?s1 = config s"
    using runTimeouts_frame [of t s k t] by simp_all
  have "\<forall>b\<in>set (requestsOf ?s1 k). t - b < windowMs (config ?s1)"
    using Cons.prems(2) by (simp add: stored1 config1)
  then have recent1: "recent ?s1 k t = requestsOf s k"
    using recent_all [of ?s1 k t] by (simp add: stored1)
  have below: "int (length (recent ?s1 k t)) < maxRequests (config ?s1)"
    using Cons.prems(3) by (simp add: recent1 config1)
  note step = checkRateLimit_open [OF assms(1) free1, of t]
  from step below have admitted: "fst (checkRateLimit env t ?s1) = Inr True"
    by simp
  from step below have free2: "k \<notin> blockedIPs ?s2"
    by simp
  from step below have stored2: "requestsOf ?s2 k = requestsOf s k @ [t]"
    by (simp add: recent1)
  have config2: "config ?s2 = config s"
    by (simp add: checkRateLimit_config config1)
  have span2: "\<forall>a\<in>set ts. \<forall>b\<in>set (requestsOf ?s2 k) \<union> set ts. a - b < windowMs (config ?s2)"
    using Cons.prems(2) by (simp add: stored2 config2)
  have count2: "int (length (requestsOf ?s2 k) + length ts) \<le> maxRequests (config ?s2)"
    using Cons.prems(3) by (simp add: stored2 config2)
  note rest = Cons.IH [OF free2 span2 count2]
  from rest admitted show ?case
    by (simp add: checkRateLimitSeq_Cons stored2 config2 del: checkRateLimitSeq.simps(2))
qed

text \<open>
  C1.  Take any configuration with \<open>maxRequests \<ge> 1\<close>, a key with no record and not
  blocked, and \<open>maxRequests + 1\<close> calls of \<open>checkRateLimit\<close> from that key whose
  clock readings differ pairwise by less than \<open>windowMs\<close> (timers that fall due in
  between run).  The first \<open>maxRequests\<close> calls return \<^verbatim>\<open>true\<close> and the last one
  returns \<^verbatim>\<open>false\<close>.
\<close>

theorem first_calls_admitted_next_denied:
  assumes "getClientIP env = Inr k"
    and "1 \<le> maxRequests (config s)"
    and "clients s k = None"
    and "k \<notin> blockedIPs s"
    and "length ts = nat (maxRequests (config s)) + 1"
    and "\<forall>a\<in>set ts. \<forall>b\<in>set ts. a - b < windowMs (config s)"
  shows "fst (checkRateLimitSeq env ts s)
           = replicate (nat (maxRequests (config s))) (Inr True) @ [Inr False]"
proof -
  from assms(5) have "ts \<noteq> []"
    by auto
  then have split: "ts = butlast ts @ [last ts]"
    by simp
  let ?pre = "butlast ts"
  let ?t = "last ts"
  have count: "length ?pre = nat (maxRequests (config s))"
    using assms(5) by simp
  have members: "set ?pre \<subseteq> set ts" "?t \<in> set ts"
    using \<open>ts \<noteq> []\<close> by (auto dest: in_set_butlastD)
  have none: "requestsOf s k = []"
    using assms(3) by (simp add: requestsOf_def)
  have span: "\<forall>a\<in>set ?pre. \<forall>b\<in>set (requestsOf s k) \<union> set ?pre. a - b < windowMs (config s)"
    using assms(6) members by (auto simp add: none)
  have room: "int (length (requestsOf s k) + length ?pre) \<le> maxRequests (config s)"
    using assms(2) count by (simp add: none del: length_butlast)
  note pre = checkRateLimitSeq_admits [OF assms(1) assms(4) span room]
  let ?s1 = "snd (checkRateLimitSeq env ?pre s)"
  let ?s2 = "runTimeouts ?t ?s1"
  from pre have results: "fst (checkRateLimitSeq env ?pre s) = replicate (length ?pre) (Inr True)"
    and free1: "k \<notin> blockedIPs ?s1"
    and config1: "config ?s1 = config s"
    and stored1: "requestsOf ?s1 k = ?pre"
    by (simp_all add: none)
  have free2: "k \<notin> blockedIPs ?s2"
    using free1 runTimeouts_frame [of ?t ?s1 k ?t] by blast
  have stored2: "requestsOf ?s2 k = ?pre" and config2: "config ?s2 = config s"
    using runTimeouts_frame [of ?t ?s1 k ?t] by (simp_all add: stored1 config1)
  have "\<forall>b\<in>set (requestsOf ?s2 k). ?t - b < windowMs (config ?s2)"
    using assms(6) members by (auto simp add: stored2 config2)
  then have recent2: "recent ?s2 k ?t = ?pre"
    using recent_all [of ?s2 k ?t] by (simp add: stored2)
  have full: "\<not> int (length (recent ?s2 k ?t)) < maxRequests (config ?s2)"
    using assms(2) count by (simp add: recent2 config2 del: length_butlast)
  from checkRateLimit_open [OF assms(1) free2, of ?t] full
  have denied: "fst (checkRateLimit env ?t ?s2) = Inr False"
    by simp
  have "fst (checkRateLimitSeq env (?pre @ [?t]) s)
          = replicate (nat (maxRequests (config s))) (Inr True) @ [Inr False]"
    using count
    by (simp add: checkRateLimitSeq_append checkRateLimitSeq_Cons results denied
        del: checkRateLimitSeq.simps(2) length_butlast)
  with split show ?thesis
    by simp
qed

theorem first_calls_admitted_next_denied_witness:
  "fst (checkRateLimitSeq env0 [0, 100, 200, 300] (newRateLimiter scenarioConfig))
     = [Inr True, Inr True, Inr True, Inr False]"
proof -
  let ?s = "newRateLimiter scenarioConfig"
  have cfg: "maxRequests (config ?s) = 3 \<and> windowMs (config ?s) = 1000"
    by (simp add: limiter_defs)
  have limit: "1 \<le> maxRequests (config ?s)"
    by (simp add: cfg)
  have fresh: "clients ?s key0 = None"
    by (simp add: limiter_defs)
  have free: "key0 \<notin> blockedIPs ?s"
    by (simp add: limiter_defs)
  have count: "length [0, 100, 200, 300 :: int] = nat (maxRequests (config ?s)) + 1"
    by (simp add: cfg)
  have span: "\<forall>a\<in>set [0, 100, 200, 300 :: int]. \<forall>b\<in>set [0, 100, 200, 300].
      a - b < windowMs (config ?s)"
    by (simp add: cfg)
  from first_calls_admitted_next_denied [OF getClientIP_env0 limit fresh free count span]
  show ?thesis
    by (simp add: cfg numeral_eq_Suc)
qed

section \<open>The scenario of the specification\<close>

text \<open>
  C2, as the code has it.  A fresh limiter with \<open>maxRequests = 3\<close>,
  \<open>windowMs = 1000\<close> and \<open>blockDurationMs = 5000\<close>, and one page.  The calls at 0, 100
  and 200 return \<^verbatim>\<open>true\<close>; the call at 300 returns \<^verbatim>\<open>false\<close> and blocks the key,
  with the unblocking timer due at 5300; the calls at 4999 and at 5001 return
  \<^verbatim>\<open>false\<close>; the call at 5301 returns \<^verbatim>\<open>true\<close> and leaves the single timestamp
  5301 in the key's record.
\<close>

theorem scenario_block_ends_at_5300:
  "fst (checkRateLimitSeq env0 [0, 100, 200, 300, 4999, 5001, 5301] (newRateLimiter scenarioConfig))
     = [Inr True, Inr True, Inr True, Inr False, Inr False, Inr False, Inr True]
   \<and> key0 \<in> blockedIPs (snd (checkRateLimitSeq env0 [0, 100, 200, 300]
       (newRateLimiter scenarioConfig)))
   \<and> timeouts (snd (checkRateLimitSeq env0 [0, 100, 200, 300] (newRateLimiter scenarioConfig)))
     = [(5300, key0)]
   \<and> requestsOf (snd (checkRateLimitSeq env0 [0, 100, 200, 300, 4999, 5001, 5301]
       (newRateLimiter scenarioConfig))) key0 = [5301]"
  by (simp add: limiter_defs getClientIP_env0 del: set_filter set_map)

text \<open>
  The scenario as it was worded fails at its last call: at 5001 the block set at 300 has
  300 ms left, and the call returns \<^verbatim>\<open>false\<close>.
\<close>

theorem scenario_call_at_5001_counterexample:
  "fst (checkRateLimitSeq env0 [0, 100, 200, 300, 4999, 5001] (newRateLimiter scenarioConfig))
     = [Inr True, Inr True, Inr True, Inr False, Inr False, Inr False]
   \<and> key0 \<in> blockedIPs (snd (checkRateLimitSeq env0 [0, 100, 200, 300, 4999, 5001]
       (newRateLimiter scenarioConfig)))"
  by (simp add: limiter_defs getClientIP_env0 del: set_filter set_map)

section \<open>How long a block lasts\<close>








text \<open>
  In every state reached from a new limiter without \<open>clearBlockedIPs\<close>, each pending
  timer belongs to a blocked key and no key has two: a key that is not blocked has no
  timer pending.
\<close>

lemma runTimeouts_timers:
  assumes "distinct (map snd (timeouts s))"
    and "snd ` set (timeouts s) \<subseteq> blockedIPs s"
  shows "distinct (map snd (timeouts (runTimeouts t s)))
     \<and> snd ` set (timeouts (runTimeouts t s)) \<subseteq> blockedIPs (runTimeouts t s)"
proof -
  have "distinct (map snd (timeouts (runTimeouts t s)))"
    using assms(1) by (simp add: runTimeouts_def distinct_map_filter)
  moreover have "snd p \<in> blockedIPs (runTimeouts t s)"
    if p: "p \<in> set (timeouts (runTimeouts t s))" for p
  proof -
    from p have pending: "p \<in> set (timeouts s)" and late: "\<not> fst p \<le> t"
      by (simp_all add: runTimeouts_def)
    have "snd p \<noteq> snd q" if q: "q \<in> set (timeouts s)" "fst q \<le> t" for q
    proof
      assume "snd p = snd q"
      with assms(1) pending q(1) have "p = q"
        by (simp add: distinct_map inj_on_def)
      with late q(2) show False by simp
    qed
    then have "snd p \<notin> set (map snd (filter (\<lambda>p. fst p \<le> t) (timeouts s)))"
      by auto
    with assms(2) pending show ?thesis
      by (auto simp add: runTimeouts_def)
  qed
  ultimately show ?thesis by blast
qed

lemma perform_timers:
  assumes "distinct (map snd (timeouts s))"
    and "snd ` set (timeouts s) \<subseteq> blockedIPs s"
    and "c \<noteq> ClearBlockedIPs"
  shows "distinct (map snd (timeouts (perform c t s)))
     \<and> snd ` set (timeouts (perform c t s)) \<subseteq> blockedIPs (perform c t s)"
proof (cases c)
  case (CheckRateLimit env')
  show ?thesis
  proof (cases "getClientIP env'")
    case (Inl e)
    with CheckRateLimit assms show ?thesis
      by (simp add: checkRateLimit_def)
  next
    case (Inr k')
    show ?thesis
    proof (cases "k' \<in> blockedIPs s")
      case True
      with CheckRateLimit Inr assms show ?thesis
        by (simp add: checkRateLimit_def)
    next
      case False
      with assms(2) have "k' \<notin> snd ` set (timeouts s)"
        by auto
      with CheckRateLimit Inr False assms show ?thesis
        by (auto simp add: checkRateLimit_def blockClient_def Let_def)
    qed
  qed
next
  case ClearBlockedIPs
  with assms(3) show ?thesis by simp
qed (use assms in \<open>simp_all add: isBlocked_def getRemainingRequests_def getTimeUntilReset_def
    cleanup_def updateConfig_def getStats_def Let_def split: sum.split option.split\<close>)

lemma run_timers:
  assumes "distinct (map snd (timeouts s))"
    and "snd ` set (timeouts s) \<subseteq> blockedIPs s"
    and "ClearBlockedIPs \<notin> snd ` set cs"
  shows "distinct (map snd (timeouts (run cs s)))
     \<and> snd ` set (timeouts (run cs s)) \<subseteq> blockedIPs (run cs s)"
  using assms
proof (induction cs arbitrary: s)
  case Nil
  then show ?case by simp
next
  case (Cons a cs)
  obtain t c where a: "a = (t, c)"
    by (cases a)
  from Cons.prems(3) a have other: "c \<noteq> ClearBlockedIPs" and rest: "ClearBlockedIPs \<notin> snd ` set cs"
    by auto
  note fired = runTimeouts_timers [OF Cons.prems(1) Cons.prems(2), of t]
  note acted = perform_timers [OF fired [THEN conjunct1] fired [THEN conjunct2] other, of t]
  from Cons.IH [OF acted [THEN conjunct1] acted [THEN conjunct2] rest] a
  show ?case by simp
qed

lemma unblocked_has_no_timer:
  assumes "ClearBlockedIPs \<notin> snd ` set cs"
    and "k \<notin> blockedIPs (run cs (newRateLimiter p))"
  shows "k \<notin> snd ` set (timeouts (run cs (newRateLimiter p)))"
proof -
  have "distinct (map snd (timeouts (newRateLimiter p)))"
    and "snd ` set (timeouts (newRateLimiter p)) \<subseteq> blockedIPs (newRateLimiter p)"
    by (simp_all add: newRateLimiter_def)
  from run_timers [OF this assms(1)] assms(2) show ?thesis
    by blast
qed

text \<open>
  A block longer than \<^verbatim>\<open>setTimeout\<close> can wait does not last: with \<open>maxRequests = 1\<close>,
  \<open>windowMs = 1000\<close> and \<open>blockDurationMs = 2 ^ 31\<close>, the call at 1 is denied and
  blocks the key, the timer is due at once, and the call at 2000 is admitted.
\<close>

lemma long_block_fires_at_once:
  "fst (checkRateLimitSeq env0 [0, 1, 2000] (newRateLimiter longBlockConfig))
     = [Inr True, Inr False, Inr True]
   \<and> timeouts (snd (checkRateLimitSeq env0 [0, 1] (newRateLimiter longBlockConfig)))
     = [(1, key0)]"
  by (simp add: limiter_defs getClientIP_env0 del: set_filter set_map)




end
